theory Spec2Isabelle
  imports Main "HOL-Library.Char_ord" "HOL-Library.List_Lexorder"
    "HOL-Library.Product_Lexorder" "HOL-Library.Sublist"
begin

section \<open>The storage layer of the offline notes application\<close>

text \<open>
  A shallow embedding of \<^verbatim>\<open>src/js/storage.js\<close> (class \<^verbatim>\<open>StorageManager\<close>).
  Every asynchronous method becomes a function from the state it reads to its
  settlement: \<open>Inr v\<close> when the promise resolves with \<open>v\<close>, \<open>Inl e\<close> when it
  rejects with \<open>e\<close>. Methods that write also return the storage they leave behind, and
  methods that read the clock or draw random numbers thread a \<open>world\<close>.

  Conventions of the model:
  \<^item> strings are \<open>string\<close>: a character is a code unit below 256, the Latin-1
    range of the language's UTF-16 strings; texts with other code units are outside
    the model;
  \<^item> a timestamp is the millisecond count of the clock; \<^verbatim>\<open>toISOString\<close> renders it
    injectively and order-preservingly, so the ISO text is identified with the count;
  \<^item> note properties hold values of their documented types (text, sequence of text,
    timestamp); a caller's object (\<^verbatim>\<open>noteData\<close>, \<^verbatim>\<open>updates\<close>) may lack any
    property, which is \<open>None\<close>;
  \<^item> the text under the key \<^verbatim>\<open>offline_notes\<close> is described by what
    \<^verbatim>\<open>JSON.parse\<close> makes of it: an array of notes or a syntax error (a text that
    parses to any other value is outside the model), and \<^verbatim>\<open>JSON.parse\<close> reads back
    what \<^verbatim>\<open>JSON.stringify\<close> wrote;
  \<^item> quota errors of \<^verbatim>\<open>localStorage.setItem\<close> and request errors of an opened
    IndexedDB connection other than a key collision are not modelled, and neither are
    the opening of the database in \<^verbatim>\<open>init\<close> and \<^verbatim>\<open>getStorageStats\<close>.
\<close>

subsection \<open>Data\<close>

type_synonym timestamp = nat

text \<open>
  A stored note. \<open>id_key\<close> is the property \<^verbatim>\<open>id\<close>, the key of the object store; the
  other fields carry the names of their properties.
\<close>

record Note =
  id_key :: string
  title :: string
  content :: string
  tags :: "string list"
  folder :: string
  createdAt :: timestamp
  updatedAt :: timestamp

text \<open>The argument objects \<^verbatim>\<open>noteData\<close> and \<^verbatim>\<open>updates\<close>: any property may be absent.\<close>

record partial =
  id_opt :: "string option"
  title_opt :: "string option"
  content_opt :: "string option"
  tags_opt :: "string list option"
  folder_opt :: "string option"
  createdAt_opt :: "timestamp option"
  updatedAt_opt :: "timestamp option"

text \<open>A JavaScript \<^verbatim>\<open>Error\<close> with its message; \<^verbatim>\<open>JSON.parse\<close> throws a SyntaxError.\<close>

datatype error = Error string | SyntaxError

text \<open>
  What \<^verbatim>\<open>localStorage.getItem('offline_notes')\<close> returns: \<^verbatim>\<open>null\<close>, the empty
  text, a text that \<^verbatim>\<open>JSON.parse\<close> reads as the given array of notes (what
  \<^verbatim>\<open>JSON.stringify\<close> wrote), or a text on which \<^verbatim>\<open>JSON.parse\<close> throws.
\<close>

datatype item = No_item | Empty_text | Json_text "Note list" | Malformed_text string

text \<open>
  The object store \<^verbatim>\<open>notes\<close> (keyPath \<^verbatim>\<open>id\<close>) with its index on
  \<^verbatim>\<open>folder\<close>: the records in key order, and the index entries (index key, primary
  key) in their order.
\<close>

record idb =
  records :: "Note list"
  folder_index :: "(string \<times> string) list"

record storage =
  isIndexedDBSupported :: bool
  db :: idb
  offline_notes :: item

text \<open>
  The environment: the reading the \<open>k\<close>-th read of the clock returns, the text
  \<^verbatim>\<open>Math.random().toString(36)\<close> of the \<open>k\<close>-th draw, and how many of each have
  happened.
\<close>

record world =
  clock :: "nat \<Rightarrow> timestamp"
  random36 :: "nat \<Rightarrow> string"
  clock_reads :: nat
  random_draws :: nat

text \<open>The value of \<^verbatim>\<open>data.notes\<close> in the argument of \<^verbatim>\<open>importData\<close>.\<close>

datatype jsval =
  Undefined | Null | Boolean bool | Number int | String string | Object | Array "partial list"

record data =
  notes_val :: jsval

record export_bundle =
  version :: nat
  exportDate :: timestamp
  bundle_notes :: "Note list"

subsection \<open>Language and engine primitives\<close>

definition Date_now :: "world \<Rightarrow> timestamp \<times> world" where
  "Date_now w = (clock w (clock_reads w), w\<lparr>clock_reads := Suc (clock_reads w)\<rparr>)"

definition new_Date_toISOString :: "world \<Rightarrow> timestamp \<times> world" where
  "new_Date_toISOString w = Date_now w"

definition Math_random_toString36 :: "world \<Rightarrow> string \<times> world" where
  "Math_random_toString36 w =
     (random36 w (random_draws w), w\<lparr>random_draws := Suc (random_draws w)\<rparr>)"

definition substr :: "nat \<Rightarrow> nat \<Rightarrow> string \<Rightarrow> string" where
  "substr start len s = take len (drop start s)"

definition digit_char :: "nat \<Rightarrow> char" where
  "digit_char d = ''0123456789'' ! d"

text \<open>The decimal text of a number, as string concatenation renders \<^verbatim>\<open>Date.now()\<close>.\<close>

fun decimal :: "nat \<Rightarrow> string" where
  "decimal n = (if n < 10 then [digit_char n] else decimal (n div 10) @ [digit_char (n mod 10)])"

declare decimal.simps [simp del]

text \<open>
  \<^verbatim>\<open>toLowerCase\<close>. In the Latin-1 range the capital letters are the codes 65 to 90
  (A to Z) and 192 to 222 except 215 (the multiplication sign); each has its small letter
  32 codes higher, and every other character is left as it is. No character of the
  range lowercases to more than one code unit, so a text is lowercased character by
  character.
\<close>

definition capital_code :: "nat \<Rightarrow> bool" where
  "capital_code k = ((65 \<le> k \<and> k \<le> 90) \<or> (192 \<le> k \<and> k \<le> 222 \<and> k \<noteq> 215))"

definition toLowerCase_char :: "char \<Rightarrow> char" where
  "toLowerCase_char c =
     (if capital_code (of_char c) then char_of (of_char c + 32 :: nat) else c)"

definition toLowerCase :: "string \<Rightarrow> string" where
  "toLowerCase s = map toLowerCase_char s"

text \<open>\<^verbatim>\<open>s.includes(t)\<close>: \<open>t\<close> starts at some position of \<open>s\<close>.\<close>

fun includes_str :: "string \<Rightarrow> string \<Rightarrow> bool" where
  "includes_str [] t = (t = [])"
| "includes_str (c # s) t = (prefix t (c # s) \<or> includes_str s t)"

text \<open>\<^verbatim>\<open>a || b\<close> where \<open>a\<close> is a text or \<^verbatim>\<open>undefined\<close>: both \<^verbatim>\<open>undefined\<close> and \<^verbatim>\<open>''\<close> are falsy.\<close>

definition or_text :: "string option \<Rightarrow> string \<Rightarrow> string" where
  "or_text a b = (case a of None \<Rightarrow> b | Some v \<Rightarrow> if v = [] then b else v)"

text \<open>\<^verbatim>\<open>a || b\<close> where \<open>a\<close> is an array or \<^verbatim>\<open>undefined\<close>: every array is truthy.\<close>

definition or_array :: "'a list option \<Rightarrow> 'a list \<Rightarrow> 'a list" where
  "or_array a b = (case a of None \<Rightarrow> b | Some v \<Rightarrow> v)"

definition truthy :: "jsval \<Rightarrow> bool" where
  "truthy v =
     (case v of
        Undefined \<Rightarrow> False
      | Null \<Rightarrow> False
      | Boolean b \<Rightarrow> b
      | Number n \<Rightarrow> n \<noteq> 0
      | String s \<Rightarrow> s \<noteq> []
      | Object \<Rightarrow> True
      | Array _ \<Rightarrow> True)"

definition Array_isArray :: "jsval \<Rightarrow> bool" where
  "Array_isArray v = (case v of Array _ \<Rightarrow> True | _ \<Rightarrow> False)"

text \<open>
  Object spread \<^verbatim>\<open>{...n, ...p}\<close>: every property \<open>p\<close> has replaces that of \<open>n\<close>.
\<close>

definition spread :: "Note \<Rightarrow> partial \<Rightarrow> Note" where
  "spread n p =
     \<lparr> id_key = (case id_opt p of None \<Rightarrow> id_key n | Some v \<Rightarrow> v),
       title = (case title_opt p of None \<Rightarrow> title n | Some v \<Rightarrow> v),
       content = (case content_opt p of None \<Rightarrow> content n | Some v \<Rightarrow> v),
       tags = (case tags_opt p of None \<Rightarrow> tags n | Some v \<Rightarrow> v),
       folder = (case folder_opt p of None \<Rightarrow> folder n | Some v \<Rightarrow> v),
       createdAt = (case createdAt_opt p of None \<Rightarrow> createdAt n | Some v \<Rightarrow> v),
       updatedAt = (case updatedAt_opt p of None \<Rightarrow> updatedAt n | Some v \<Rightarrow> v) \<rparr>"

text \<open>\<^verbatim>\<open>notes.findIndex(P)\<close>; \<open>None\<close> is the result \<open>-1\<close>.\<close>

fun findIndex :: "('a \<Rightarrow> bool) \<Rightarrow> 'a list \<Rightarrow> nat option" where
  "findIndex P [] = None"
| "findIndex P (x # xs) = (if P x then Some 0 else map_option Suc (findIndex P xs))"

text \<open>
  The IndexedDB engine on one object store. \<^verbatim>\<open>add\<close> refuses a key that is present
  (\<open>None\<close>: the request's \<^verbatim>\<open>onerror\<close> fires), \<^verbatim>\<open>put\<close> replaces or inserts; both
  keep the records in key order and maintain the index entries.
\<close>

fun store_add :: "Note \<Rightarrow> Note list \<Rightarrow> Note list option" where
  "store_add n [] = Some [n]"
| "store_add n (m # ms) =
     (if id_key n = id_key m then None
      else if id_key n < id_key m then Some (n # m # ms)
      else map_option (Cons m) (store_add n ms))"

fun store_put :: "Note \<Rightarrow> Note list \<Rightarrow> Note list" where
  "store_put n [] = [n]"
| "store_put n (m # ms) =
     (if id_key n = id_key m then n # ms
      else if id_key n < id_key m then n # m # ms
      else m # store_put n ms)"

fun index_add :: "'a::linorder \<Rightarrow> 'a list \<Rightarrow> 'a list" where
  "index_add e [] = [e]"
| "index_add e (x # xs) =
     (if e = x then x # xs else if e < x then e # x # xs else x # index_add e xs)"

definition idb_get :: "string \<Rightarrow> idb \<Rightarrow> Note option" where
  "idb_get k d = find (\<lambda>n. id_key n = k) (records d)"

definition idb_add :: "Note \<Rightarrow> idb \<Rightarrow> idb option" where
  "idb_add n d =
     (case store_add n (records d) of
        None \<Rightarrow> None
      | Some rs \<Rightarrow>
          Some \<lparr> records = rs,
                 folder_index = index_add (folder n, id_key n) (folder_index d) \<rparr>)"

definition idb_put :: "Note \<Rightarrow> idb \<Rightarrow> idb" where
  "idb_put n d =
     \<lparr> records = store_put n (records d),
       folder_index =
         index_add (folder n, id_key n)
           (case idb_get (id_key n) d of
              None \<Rightarrow> folder_index d
            | Some m \<Rightarrow> removeAll (folder m, id_key m) (folder_index d)) \<rparr>"

definition idb_delete :: "string \<Rightarrow> idb \<Rightarrow> idb" where
  "idb_delete k d =
     \<lparr> records = filter (\<lambda>n. id_key n \<noteq> k) (records d),
       folder_index = filter (\<lambda>e. snd e \<noteq> k) (folder_index d) \<rparr>"

definition idb_clear :: "idb" where
  "idb_clear = \<lparr> records = [], folder_index = [] \<rparr>"

definition idb_getAll :: "idb \<Rightarrow> Note list" where
  "idb_getAll d = records d"

text \<open>
  \<^verbatim>\<open>store.index('folder').getAll(f)\<close>: the index entries with key \<open>f\<close>, in index
  order, each resolved to its record by primary key.
\<close>

definition idb_index_getAll :: "string \<Rightarrow> idb \<Rightarrow> Note list" where
  "idb_index_getAll f d =
     List.map_filter (\<lambda>e. if fst e = f then idb_get (snd e) d else None) (folder_index d)"

subsection \<open>StorageManager\<close>

text \<open>
  \<^verbatim>\<open>initLocalStorage\<close>, where \<^verbatim>\<open>localStorage\<close> exists: a missing or empty item
  becomes the empty array, any other text is left as it is.
\<close>

definition initLocalStorage :: "storage \<Rightarrow> storage" where
  "initLocalStorage s =
     (case offline_notes s of
        No_item \<Rightarrow> s\<lparr>offline_notes := Json_text []\<rparr>
      | Empty_text \<Rightarrow> s\<lparr>offline_notes := Json_text []\<rparr>
      | _ \<Rightarrow> s)"

definition getNotesFromLocalStorage :: "storage \<Rightarrow> error + Note list" where
  "getNotesFromLocalStorage s =
     (case offline_notes s of
        No_item \<Rightarrow> Inr []
      | Empty_text \<Rightarrow> Inr []
      | Json_text ns \<Rightarrow> Inr ns
      | Malformed_text _ \<Rightarrow> Inl SyntaxError)"

definition generateId :: "world \<Rightarrow> string \<times> world" where
  "generateId w =
     (let (t, w1) = Date_now w;
          (r, w2) = Math_random_toString36 w1
      in (''note_'' @ decimal t @ ''_'' @ substr 2 9 r, w2))"

text \<open>The object literal of \<^verbatim>\<open>createNote\<close>, its properties evaluated in order.\<close>

definition createNote_literal :: "world \<Rightarrow> partial \<Rightarrow> Note \<times> world" where
  "createNote_literal w noteData =
     (let (i, w1) = generateId w;
          (c, w2) = new_Date_toISOString w1;
          (u, w3) = new_Date_toISOString w2
      in (spread
            \<lparr> id_key = i,
              title = or_text (title_opt noteData) ''Untitled Note'',
              content = or_text (content_opt noteData) [],
              tags = or_array (tags_opt noteData) [],
              folder = or_text (folder_opt noteData) ''default'',
              createdAt = c,
              updatedAt = u \<rparr>
            noteData, w3))"

definition createNoteIndexedDB :: "Note \<Rightarrow> storage \<Rightarrow> (error + Note) \<times> storage" where
  "createNoteIndexedDB n s =
     (case idb_add n (db s) of
        None \<Rightarrow> (Inl (Error ''Failed to create note''), s)
      | Some d \<Rightarrow> (Inr n, s\<lparr>db := d\<rparr>))"

definition createNoteLocalStorage :: "Note \<Rightarrow> storage \<Rightarrow> (error + Note) \<times> storage" where
  "createNoteLocalStorage n s =
     (case getNotesFromLocalStorage s of
        Inl e \<Rightarrow> (Inl (Error ''Failed to create note in localStorage''), s)
      | Inr ns \<Rightarrow> (Inr n, s\<lparr>offline_notes := Json_text (ns @ [n])\<rparr>))"

definition createNote :: "world \<Rightarrow> storage \<Rightarrow> partial \<Rightarrow> (error + Note) \<times> world \<times> storage" where
  "createNote w s noteData =
     (let (n, w') = createNote_literal w noteData;
          (r, s') = (if isIndexedDBSupported s then createNoteIndexedDB n s
                     else createNoteLocalStorage n s)
      in (r, w', s'))"

definition getAllNotesIndexedDB :: "storage \<Rightarrow> error + Note list" where
  "getAllNotesIndexedDB s = Inr (idb_getAll (db s))"

definition getAllNotesLocalStorage :: "storage \<Rightarrow> error + Note list" where
  "getAllNotesLocalStorage s =
     (case getNotesFromLocalStorage s of
        Inl e \<Rightarrow> Inl (Error ''Failed to get notes from localStorage'')
      | Inr ns \<Rightarrow> Inr ns)"

definition getAllNotes :: "storage \<Rightarrow> error + Note list" where
  "getAllNotes s =
     (if isIndexedDBSupported s then getAllNotesIndexedDB s else getAllNotesLocalStorage s)"

text \<open>A missing note is the resolved value \<^verbatim>\<open>undefined\<close>, here \<open>None\<close>.\<close>

definition getNoteIndexedDB :: "storage \<Rightarrow> string \<Rightarrow> error + Note option" where
  "getNoteIndexedDB s i = Inr (idb_get i (db s))"

definition getNoteLocalStorage :: "storage \<Rightarrow> string \<Rightarrow> error + Note option" where
  "getNoteLocalStorage s i =
     (case getNotesFromLocalStorage s of
        Inl e \<Rightarrow> Inl (Error ''Failed to get note from localStorage'')
      | Inr ns \<Rightarrow> Inr (find (\<lambda>n. id_key n = i) ns))"

definition getNote :: "storage \<Rightarrow> string \<Rightarrow> error + Note option" where
  "getNote s i = (if isIndexedDBSupported s then getNoteIndexedDB s i else getNoteLocalStorage s i)"

definition updateNoteIndexedDB :: "Note \<Rightarrow> storage \<Rightarrow> (error + Note) \<times> storage" where
  "updateNoteIndexedDB n s = (Inr n, s\<lparr>db := idb_put n (db s)\<rparr>)"

text \<open>
  The \<^verbatim>\<open>Note not found\<close> error thrown when \<^verbatim>\<open>findIndex\<close> gives \<open>-1\<close> is caught by
  the method's own handler, like a parse error.
\<close>

definition updateNoteLocalStorage :: "Note \<Rightarrow> storage \<Rightarrow> (error + Note) \<times> storage" where
  "updateNoteLocalStorage n s =
     (case getNotesFromLocalStorage s of
        Inl e \<Rightarrow> (Inl (Error ''Failed to update note in localStorage''), s)
      | Inr ns \<Rightarrow>
          (case findIndex (\<lambda>m. id_key m = id_key n) ns of
             None \<Rightarrow> (Inl (Error ''Failed to update note in localStorage''), s)
           | Some i \<Rightarrow> (Inr n, s\<lparr>offline_notes := Json_text (ns[i := n])\<rparr>)))"

definition updateNote ::
  "world \<Rightarrow> storage \<Rightarrow> string \<Rightarrow> partial \<Rightarrow> (error + Note) \<times> world \<times> storage" where
  "updateNote w s i updates =
     (case getNote s i of
        Inl e \<Rightarrow> (Inl e, w, s)
      | Inr None \<Rightarrow> (Inl (Error ''Note not found''), w, s)
      | Inr (Some existingNote) \<Rightarrow>
          (let (now, w') = new_Date_toISOString w;
               updatedNote = (spread existingNote updates)\<lparr>updatedAt := now\<rparr>;
               (r, s') = (if isIndexedDBSupported s then updateNoteIndexedDB updatedNote s
                          else updateNoteLocalStorage updatedNote s)
           in (r, w', s')))"

definition deleteNoteIndexedDB :: "storage \<Rightarrow> string \<Rightarrow> (error + bool) \<times> storage" where
  "deleteNoteIndexedDB s i = (Inr True, s\<lparr>db := idb_delete i (db s)\<rparr>)"

definition deleteNoteLocalStorage :: "storage \<Rightarrow> string \<Rightarrow> (error + bool) \<times> storage" where
  "deleteNoteLocalStorage s i =
     (case getNotesFromLocalStorage s of
        Inl e \<Rightarrow> (Inl (Error ''Failed to delete note from localStorage''), s)
      | Inr ns \<Rightarrow>
          (Inr True, s\<lparr>offline_notes := Json_text (filter (\<lambda>n. id_key n \<noteq> i) ns)\<rparr>))"

definition deleteNote :: "storage \<Rightarrow> string \<Rightarrow> (error + bool) \<times> storage" where
  "deleteNote s i =
     (if isIndexedDBSupported s then deleteNoteIndexedDB s i else deleteNoteLocalStorage s i)"

text \<open>The predicate of the filter in \<^verbatim>\<open>searchNotes\<close>.\<close>

definition search_hit :: "string \<Rightarrow> Note \<Rightarrow> bool" where
  "search_hit searchTerm n =
     (includes_str (toLowerCase (title n)) searchTerm \<or>
      includes_str (toLowerCase (content n)) searchTerm \<or>
      list_ex (\<lambda>tag. includes_str (toLowerCase tag) searchTerm) (tags n))"

definition searchNotes :: "storage \<Rightarrow> string \<Rightarrow> error + Note list" where
  "searchNotes s query =
     (case getAllNotes s of
        Inl e \<Rightarrow> Inl e
      | Inr allNotes \<Rightarrow> Inr (filter (search_hit (toLowerCase query)) allNotes))"

definition getNotesByFolderIndexedDB :: "storage \<Rightarrow> string \<Rightarrow> error + Note list" where
  "getNotesByFolderIndexedDB s f = Inr (idb_index_getAll f (db s))"

definition getNotesByFolder :: "storage \<Rightarrow> string \<Rightarrow> error + Note list" where
  "getNotesByFolder s f =
     (if isIndexedDBSupported s then getNotesByFolderIndexedDB s f
      else (case getAllNotes s of
              Inl e \<Rightarrow> Inl e
            | Inr allNotes \<Rightarrow> Inr (filter (\<lambda>n. folder n = f) allNotes)))"

definition dbVersion :: nat where
  "dbVersion = 1"

definition exportData :: "world \<Rightarrow> storage \<Rightarrow> (error + export_bundle) \<times> world" where
  "exportData w s =
     (case getAllNotes s of
        Inl e \<Rightarrow> (Inl e, w)
      | Inr ns \<Rightarrow>
          (let (now, w') = new_Date_toISOString w
           in (Inr \<lparr> version = dbVersion, exportDate = now, bundle_notes = ns \<rparr>, w')))"

definition clearAllDataIndexedDB :: "storage \<Rightarrow> (error + bool) \<times> storage" where
  "clearAllDataIndexedDB s = (Inr True, s\<lparr>db := idb_clear\<rparr>)"

definition clearAllDataLocalStorage :: "storage \<Rightarrow> (error + bool) \<times> storage" where
  "clearAllDataLocalStorage s = (Inr True, s\<lparr>offline_notes := Json_text []\<rparr>)"

definition clearAllData :: "storage \<Rightarrow> (error + bool) \<times> storage" where
  "clearAllData s =
     (if isIndexedDBSupported s then clearAllDataIndexedDB s else clearAllDataLocalStorage s)"

text \<open>The loop of \<^verbatim>\<open>importData\<close>: the first rejected \<^verbatim>\<open>createNote\<close> ends it.\<close>

fun import_loop :: "world \<Rightarrow> storage \<Rightarrow> partial list \<Rightarrow> (error + unit) \<times> world \<times> storage" where
  "import_loop w s [] = (Inr (), w, s)"
| "import_loop w s (noteData # rest) =
     (case createNote w s noteData of
        (Inl e, w', s') \<Rightarrow> (Inl e, w', s')
      | (Inr n, w', s') \<Rightarrow> import_loop w' s' rest)"

definition importData :: "world \<Rightarrow> storage \<Rightarrow> data \<Rightarrow> (error + nat) \<times> world \<times> storage" where
  "importData w s d =
     (if \<not> truthy (notes_val d) \<or> \<not> Array_isArray (notes_val d)
      then (Inl (Error ''Invalid import data format''), w, s)
      else
        (case notes_val d of
           Array ns \<Rightarrow>
             (case clearAllData s of
                (Inl e, s1) \<Rightarrow> (Inl e, w, s1)
              | (Inr _, s1) \<Rightarrow>
                  (case import_loop w s1 ns of
                     (Inl e, w', s') \<Rightarrow> (Inl e, w', s')
                   | (Inr _, w', s') \<Rightarrow> (Inr (length ns), w', s')))
         | _ \<Rightarrow> (Inl (Error ''Invalid import data format''), w, s)))"

text \<open>
  An exported bundle handed back to \<^verbatim>\<open>importData\<close>: each note is an object that has
  all seven properties.
\<close>

definition as_partial :: "Note \<Rightarrow> partial" where
  "as_partial n =
     \<lparr> id_opt = Some (id_key n), title_opt = Some (title n), content_opt = Some (content n),
       tags_opt = Some (tags n), folder_opt = Some (folder n),
       createdAt_opt = Some (createdAt n), updatedAt_opt = Some (updatedAt n) \<rparr>"

definition as_data :: "export_bundle \<Rightarrow> data" where
  "as_data b = \<lparr> notes_val = Array (map as_partial (bundle_notes b)) \<rparr>"

subsection \<open>The engine's invariant\<close>

text \<open>
  What the IndexedDB engine maintains of an object store with keyPath \<^verbatim>\<open>id\<close> and
  an index on \<^verbatim>\<open>folder\<close>: keys are unique and in ascending order, and the index
  holds exactly one entry per record.
\<close>

definition idb_wf :: "idb \<Rightarrow> bool" where
  "idb_wf d =
     (sorted_wrt (<) (map id_key (records d)) \<and>
      sorted_wrt (<) (folder_index d) \<and>
      set (folder_index d) = (\<lambda>n. (folder n, id_key n)) ` set (records d))"

definition storage_wf :: "storage \<Rightarrow> bool" where
  "storage_wf s = idb_wf (db s)"

subsection \<open>Notions the claims are stated with\<close>

text \<open>
  The matching rule in the words of the specification: the lowercased query is a
  substring of the lowercased title, or of the lowercased content, or of the lowercasing
  of at least one tag. \<open>sublist\<close> is the contiguous-substring relation.
\<close>

definition query_matches :: "string \<Rightarrow> Note \<Rightarrow> bool" where
  "query_matches q n =
     (sublist (toLowerCase q) (toLowerCase (title n)) \<or>
      sublist (toLowerCase q) (toLowerCase (content n)) \<or>
      (\<exists>tag \<in> set (tags n). sublist (toLowerCase q) (toLowerCase tag)))"



subsection \<open>Sample states\<close>

text \<open>A clock that stays within one millisecond, and one that advances at every read.\<close>

definition steady_clock :: "nat \<Rightarrow> timestamp" where
  "steady_clock k = 1000"

definition ticking_clock :: "nat \<Rightarrow> timestamp" where
  "ticking_clock k = 3000 + k"

definition fixed_random :: "nat \<Rightarrow> string" where
  "fixed_random k = ''0.4fzyo82mvyr''"

definition varying_random :: "nat \<Rightarrow> string" where
  "varying_random k = ''0.'' @ decimal k @ ''fzyo82mvyr''"

definition steady_world :: world where
  "steady_world =
     \<lparr> clock = steady_clock, random36 = fixed_random, clock_reads = 0, random_draws = 0 \<rparr>"

definition ticking_world :: world where
  "ticking_world =
     \<lparr> clock = ticking_clock, random36 = varying_random, clock_reads = 0, random_draws = 0 \<rparr>"

definition no_fields :: partial where
  "no_fields =
     \<lparr> id_opt = None, title_opt = None, content_opt = None, tags_opt = None,
       folder_opt = None, createdAt_opt = None, updatedAt_opt = None \<rparr>"

text \<open>The note that \<^verbatim>\<open>createNote({title: 'X'})\<close> returns under the steady clock.\<close>

definition note_x :: Note where
  "note_x =
     \<lparr> id_key = ''note_1000_4fzyo82mv'', title = ''X'', content = [], tags = [],
       folder = ''default'', createdAt = 1000, updatedAt = 1000 \<rparr>"

definition sample_note_a :: Note where
  "sample_note_a =
     \<lparr> id_key = ''note_1000_abc'', title = ''Groceries'', content = ''Buy MILK'',
       tags = [''Home''], folder = ''home'', createdAt = 1000, updatedAt = 1000 \<rparr>"

definition sample_note_b :: Note where
  "sample_note_b =
     \<lparr> id_key = ''note_2000_xyz'', title = ''Roadmap'', content = ''ship it'',
       tags = [''Work'', ''plan''], folder = ''work'', createdAt = 2000, updatedAt = 2500 \<rparr>"

definition sample_idb :: idb where
  "sample_idb =
     \<lparr> records = [sample_note_a, sample_note_b],
       folder_index = [(''home'', ''note_1000_abc''), (''work'', ''note_2000_xyz'')] \<rparr>"

definition empty_primary :: storage where
  "empty_primary =
     \<lparr> isIndexedDBSupported = True, db = idb_clear, offline_notes = No_item \<rparr>"

definition empty_fallback :: storage where
  "empty_fallback =
     \<lparr> isIndexedDBSupported = False, db = idb_clear, offline_notes = Json_text [] \<rparr>"

definition primary_store :: storage where
  "primary_store =
     \<lparr> isIndexedDBSupported = True, db = sample_idb, offline_notes = No_item \<rparr>"

definition fallback_store :: storage where
  "fallback_store =
     \<lparr> isIndexedDBSupported = False, db = idb_clear,
       offline_notes = Json_text [sample_note_a, sample_note_b] \<rparr>"

definition corrupted_store :: storage where
  "corrupted_store =
     \<lparr> isIndexedDBSupported = False, db = idb_clear,
       offline_notes = Malformed_text ''invalid json'' \<rparr>"

section \<open>Facts about the engine primitives\<close>

lemma findIndex_None_iff: "findIndex P xs = None \<longleftrightarrow> (\<forall>x \<in> set xs. \<not> P x)"
  by (induction xs) auto

lemma find_update_at_findIndex:
  "findIndex P xs = Some k \<Longrightarrow> P y \<Longrightarrow> find P (xs[k := y]) = Some y"
proof (induction xs arbitrary: k)
  case Nil
  then show ?case by simp
next
  case (Cons x xs)
  then show ?case by (auto split: if_splits)
qed

lemma find_id_key: "find (\<lambda>n. id_key n = k) ns = Some e \<Longrightarrow> id_key e = k \<and> e \<in> set ns"
  by (induction ns) (auto split: if_splits)

lemma find_store_put:
  "find (\<lambda>m. id_key m = k) (store_put n rs) =
     (if k = id_key n then Some n else find (\<lambda>m. id_key m = k) rs)"
  by (induction rs) auto

lemma idb_get_put: "idb_get k (idb_put n d) = (if k = id_key n then Some n else idb_get k d)"
  by (simp add: idb_get_def idb_put_def find_store_put)

lemma set_store_add: "store_add n rs = Some rs' \<Longrightarrow> set rs' = insert n (set rs)"
  by (induction rs arbitrary: rs') (auto split: if_splits)

lemma store_add_None: "store_add n rs = None \<Longrightarrow> id_key n \<in> id_key ` set rs"
  by (induction rs) (auto split: if_splits)

lemma sorted_store_add:
  "store_add n rs = Some rs' \<Longrightarrow> sorted_wrt (<) (map id_key rs) \<Longrightarrow> sorted_wrt (<) (map id_key rs')"
proof (induction rs arbitrary: rs')
  case Nil
  then show ?case by auto
next
  case (Cons m ms)
  show ?case
  proof (cases "id_key n < id_key m")
    case True
    have "id_key n < id_key x" if "x \<in> set ms" for x
    proof -
      have "id_key m < id_key x" using that Cons.prems(2) by simp
      with True show ?thesis by (rule less_trans)
    qed
    then have "\<forall>x \<in> set ms. id_key n < id_key x" by blast
    with True Cons.prems show ?thesis by (auto split: if_splits)
  next
    case False
    with Cons.prems obtain ms' where a: "store_add n ms = Some ms'" and r: "rs' = m # ms'"
      and ne: "id_key n \<noteq> id_key m"
      by (auto split: if_splits)
    have "sorted_wrt (<) (map id_key ms')" using Cons.IH [OF a] Cons.prems(2) by simp
    moreover have "\<forall>x \<in> set ms'. id_key m < id_key x"
      using set_store_add [OF a] Cons.prems(2) False ne by auto
    ultimately show ?thesis using r by simp
  qed
qed

lemma set_index_add: "set (index_add e xs) = insert e (set xs)"
  by (induction xs) auto

lemma sorted_index_add: "sorted_wrt (<) xs \<Longrightarrow> sorted_wrt (<) (index_add e xs)"
  by (induction xs) (auto simp: set_index_add)

lemma set_store_put:
  "sorted_wrt (<) (map id_key rs) \<Longrightarrow>
   set (store_put n rs) = insert n {m \<in> set rs. id_key m \<noteq> id_key n}"
  by (induction rs) auto

lemma sorted_store_put:
  "sorted_wrt (<) (map id_key rs) \<Longrightarrow> sorted_wrt (<) (map id_key (store_put n rs))"
proof (induction rs)
  case Nil
  then show ?case by simp
next
  case (Cons m ms)
  then have "\<forall>x \<in> set (store_put n ms). id_key n = id_key x \<or> id_key m < id_key x"
    by (auto simp: set_store_put)
  with Cons show ?case by auto
qed

lemma idb_wf_clear: "idb_wf idb_clear"
  by (simp add: idb_wf_def idb_clear_def)

lemma idb_wf_add: "idb_wf d \<Longrightarrow> idb_add n d = Some d' \<Longrightarrow> idb_wf d'"
  by (auto simp: idb_wf_def idb_add_def sorted_store_add sorted_index_add set_index_add
      set_store_add split: option.splits)

lemma idb_wf_delete: "idb_wf d \<Longrightarrow> idb_wf (idb_delete k d)"
  unfolding idb_wf_def idb_delete_def
  by (auto simp: sorted_wrt_filter sorted_wrt_map intro!: sorted_wrt_filter)

lemma idb_wf_put: "idb_wf d \<Longrightarrow> idb_wf (idb_put n d)"
proof -
  assume wf: "idb_wf d"
  let ?rs = "records d" and ?ix = "folder_index d"
  let ?e = "\<lambda>n. (folder n, id_key n)"
  have srt: "sorted_wrt (<) (map id_key ?rs)" and six: "sorted_wrt (<) ?ix"
    and img: "set ?ix = ?e ` set ?rs"
    using wf by (simp_all add: idb_wf_def)
  have dist: "distinct (map id_key ?rs)" using srt by (simp add: strict_sorted_iff)
  have inj: "inj_on id_key (set ?rs)" using dist by (simp add: distinct_map)
  let ?ix' = "case idb_get (id_key n) d of None \<Rightarrow> ?ix
              | Some m \<Rightarrow> removeAll (folder m, id_key m) ?ix"
  have rem: "sorted_wrt (<) (removeAll e ?ix)" for e
    unfolding removeAll_filter_not_eq using six by (rule sorted_wrt_filter)
  have six': "sorted_wrt (<) ?ix'"
    using six rem by (cases "idb_get (id_key n) d") simp_all
  have "set ?ix' = ?e ` {m \<in> set ?rs. id_key m \<noteq> id_key n}"
  proof (cases "idb_get (id_key n) d")
    case None
    then have "\<forall>m \<in> set ?rs. id_key m \<noteq> id_key n"
      by (simp add: idb_get_def find_None_iff)
    then have "{m \<in> set ?rs. id_key m \<noteq> id_key n} = set ?rs" by auto
    with None img show ?thesis by simp
  next
    case (Some m)
    then have m: "id_key m = id_key n" "m \<in> set ?rs"
      using find_id_key [of "id_key n" ?rs m] by (simp_all add: idb_get_def)
    have uniq: "x = m" if "x \<in> set ?rs" "id_key x = id_key n" for x
    proof -
      have "id_key x = id_key m" using that(2) m(1) by simp
      from inj_onD [OF inj this that(1) m(2)] show ?thesis .
    qed
    have "{x \<in> set ?rs. id_key x \<noteq> id_key n} = set ?rs - {m}"
      using m(1) uniq by blast
    moreover have "?e ` (set ?rs - {m}) = ?e ` set ?rs - {?e m}"
    proof -
      have "inj_on ?e (set ?rs)"
        using inj by (simp add: inj_on_def)
      from inj_on_image_set_diff [OF this, of "set ?rs" "{m}"] m(2)
      show ?thesis by simp
    qed
    ultimately show ?thesis using Some img by simp
  qed
  then have sets: "set (index_add (?e n) ?ix') = ?e ` set (store_put n ?rs)"
    using srt by (simp add: set_index_add set_store_put)
  have "sorted_wrt (<) (index_add (?e n) ?ix')"
    using six' by (rule sorted_index_add)
  moreover have "sorted_wrt (<) (map id_key (store_put n ?rs))"
    using srt by (rule sorted_store_put)
  ultimately show ?thesis
    using sets unfolding idb_wf_def idb_put_def by simp
qed

lemma find_unique:
  assumes "distinct (map id_key rs)" and "n \<in> set rs"
  shows "find (\<lambda>m. id_key m = id_key n) rs = Some n"
  using assms by (induction rs) (auto simp: image_iff)

lemma map_filter_lookup:
  assumes "\<forall>e \<in> set ix. \<exists>n. g e = Some n \<and> id_key n = snd e \<and> folder n = fst e"
  shows "map id_key (List.map_filter (\<lambda>e. if fst e = f then g e else None) ix) =
           map snd (filter (\<lambda>e. fst e = f) ix) \<and>
         set (List.map_filter (\<lambda>e. if fst e = f then g e else None) ix) =
           {n. \<exists>e \<in> set ix. fst e = f \<and> g e = Some n}"
  using assms
proof (induction ix)
  case Nil
  then show ?case by simp
next
  case (Cons e ix)
  then obtain n where n: "g e = Some n" "id_key n = snd e" by auto
  have ih: "map id_key (List.map_filter (\<lambda>e. if fst e = f then g e else None) ix) =
           map snd (filter (\<lambda>e. fst e = f) ix) \<and>
         set (List.map_filter (\<lambda>e. if fst e = f then g e else None) ix) =
           {n. \<exists>e \<in> set ix. fst e = f \<and> g e = Some n}"
    using Cons by simp
  show ?case
  proof (cases "fst e = f")
    case True
    then show ?thesis using n ih by auto
  next
    case False
    then show ?thesis using n ih by auto
  qed
qed

lemma sorted_snd_same_fst:
  fixes ix :: "(string \<times> string) list"
  assumes "sorted_wrt (<) ix" and "\<forall>e \<in> set ix. fst e = f"
  shows "sorted_wrt (<) (map snd ix)"
  using assms by (induction ix) (auto simp: less_prod_def)

lemma idb_index_getAll_filter:
  assumes wf: "idb_wf d"
  shows "idb_index_getAll f d = filter (\<lambda>n. folder n = f) (records d)"
proof -
  let ?rs = "records d" and ?ix = "folder_index d"
  let ?g = "\<lambda>e. idb_get (snd e) d"
  let ?L = "List.map_filter (\<lambda>e. if fst e = f then ?g e else None) ?ix"
  let ?R = "filter (\<lambda>n. folder n = f) ?rs"
  have srt: "sorted_wrt (<) (map id_key ?rs)" and six: "sorted_wrt (<) ?ix"
    and img: "set ?ix = (\<lambda>n. (folder n, id_key n)) ` set ?rs"
    using wf by (simp_all add: idb_wf_def)
  have dist: "distinct (map id_key ?rs)" using srt by (simp add: strict_sorted_iff)
  have inj: "inj_on id_key (set ?rs)" using dist by (simp add: distinct_map)
  have look: "?g (folder n, id_key n) = Some n" if "n \<in> set ?rs" for n
    using find_unique [OF dist that] by (simp add: idb_get_def)
  have ent: "\<forall>e \<in> set ?ix. \<exists>n. ?g e = Some n \<and> id_key n = snd e \<and> folder n = fst e"
  proof
    fix e assume "e \<in> set ?ix"
    then obtain n where "n \<in> set ?rs" "e = (folder n, id_key n)" using img by auto
    then show "\<exists>n. ?g e = Some n \<and> id_key n = snd e \<and> folder n = fst e"
      using look by auto
  qed
  note mf = map_filter_lookup [OF ent, of f]
  have setL: "set ?L = set ?R"
  proof -
    have "set ?L = {n. \<exists>e \<in> set ?ix. fst e = f \<and> ?g e = Some n}" using mf by simp
    also have "\<dots> = {n \<in> set ?rs. folder n = f}"
      unfolding img using look by force
    finally show ?thesis by simp
  qed
  have "sorted_wrt (<) (map snd (filter (\<lambda>e. fst e = f) ?ix))"
    by (rule sorted_snd_same_fst [where f = f]) (simp_all add: six sorted_wrt_filter)
  then have sL: "sorted_wrt (<) (map id_key ?L)" using mf by simp
  have sR: "sorted_wrt (<) (map id_key ?R)"
    using srt by (simp add: sorted_wrt_map sorted_wrt_filter)
  have "map id_key ?L = map id_key ?R"
    using sR sL
  proof (rule strict_sorted_equal)
    show "set (map id_key ?L) = set (map id_key ?R)" using setL by simp
  qed
  moreover have "inj_on id_key (set ?L \<union> set ?R)"
    using inj setL by (auto intro: inj_on_subset)
  ultimately have "?L = ?R" by (simp add: inj_on_map_eq_map)
  then show ?thesis by (simp add: idb_index_getAll_def)
qed

section \<open>Facts about texts\<close>











lemma includes_str_sublist: "includes_str s t \<longleftrightarrow> sublist t s"
  by (induction s) (simp_all add: sublist_Cons_right)

lemma search_hit_matches: "search_hit (toLowerCase q) n \<longleftrightarrow> query_matches q n"
  by (simp add: search_hit_def query_matches_def includes_str_sublist list_ex_iff)

text \<open>
  Lowercasing never yields a capital, so it changes nothing when applied again; a query
  and its lowercasing therefore match the same notes.
\<close>

lemma toLowerCase_char_code:
  "of_char (toLowerCase_char c) =
     (if capital_code (of_char c) then of_char c + 32 else (of_char c :: nat))"
proof -
  have "(of_char c :: nat) < 256" by simp
  then show ?thesis by (auto simp: toLowerCase_char_def capital_code_def)
qed

lemma toLowerCase_char_small: "\<not> capital_code (of_char (toLowerCase_char c))"
  by (auto simp: toLowerCase_char_code capital_code_def)

lemma toLowerCase_char_idem: "toLowerCase_char (toLowerCase_char c) = toLowerCase_char c"
  using toLowerCase_char_small [of c] by (subst (1) toLowerCase_char_def) simp

lemma toLowerCase_idem: "toLowerCase (toLowerCase s) = toLowerCase s"
  by (simp add: toLowerCase_def toLowerCase_char_idem)

lemma query_matches_lowercased: "query_matches (toLowerCase q) n \<longleftrightarrow> query_matches q n"
  by (simp add: query_matches_def toLowerCase_idem)

lemma search_filter: "filter (search_hit (toLowerCase q)) ns = filter (query_matches q) ns"
proof -
  have "search_hit (toLowerCase q) = query_matches q"
    by (rule ext) (rule search_hit_matches)
  then show ?thesis by simp
qed


section \<open>Facts about the methods\<close>

subsection \<open>Reading and merging\<close>

lemma getNote_fallback_cases:
  assumes "\<not> isIndexedDBSupported s" and "getNote s i = Inr r"
  obtains ns where "getNotesFromLocalStorage s = Inr ns" and "r = find (\<lambda>n. id_key n = i) ns"
  using assms by (auto simp: getNote_def getNoteLocalStorage_def split: sum.splits)

lemma getNote_after_write:
  "getNote (s\<lparr>offline_notes := Json_text ns\<rparr>) i =
     (if isIndexedDBSupported s then Inr (idb_get i (db s)) else Inr (find (\<lambda>n. id_key n = i) ns))"
  by (simp add: getNote_def getNoteLocalStorage_def getNoteIndexedDB_def getNotesFromLocalStorage_def)

lemma id_key_spread:
  "id_key ((spread e u)\<lparr>updatedAt := t\<rparr>) = (case id_opt u of None \<Rightarrow> id_key e | Some j \<Rightarrow> j)"
  by (simp add: spread_def)

subsection \<open>Importing an exported collection\<close>

text \<open>
  A note handed back to \<^verbatim>\<open>createNote\<close> has all seven properties, so the spread
  replaces every default and the generated id: the note itself is stored.
\<close>

lemma spread_as_partial: "spread b (as_partial n) = n"
  by (simp add: spread_def as_partial_def)

lemma generateId_eq:
  "generateId w =
     (''note_'' @ decimal (clock w (clock_reads w)) @ ''_'' @ substr 2 9 (random36 w (random_draws w)),
      w\<lparr>clock_reads := Suc (clock_reads w), random_draws := Suc (random_draws w)\<rparr>)"
  by (simp add: generateId_def Date_now_def Math_random_toString36_def)

lemma createNote_literal_eq:
  "createNote_literal w noteData =
     (spread
        \<lparr> id_key = fst (generateId w),
          title = or_text (title_opt noteData) ''Untitled Note'',
          content = or_text (content_opt noteData) [],
          tags = or_array (tags_opt noteData) [],
          folder = or_text (folder_opt noteData) ''default'',
          createdAt = clock w (Suc (clock_reads w)),
          updatedAt = clock w (Suc (Suc (clock_reads w))) \<rparr>
        noteData,
      w\<lparr>clock_reads := clock_reads w + 3, random_draws := Suc (random_draws w)\<rparr>)"
  by (simp add: createNote_literal_def generateId_eq new_Date_toISOString_def Date_now_def)

lemma createNote_as_partial:
  "createNote w s (as_partial n) =
     (if isIndexedDBSupported s
      then (case idb_add n (db s) of
              None \<Rightarrow> (Inl (Error ''Failed to create note''),
                         w\<lparr>clock_reads := clock_reads w + 3, random_draws := Suc (random_draws w)\<rparr>, s)
            | Some d \<Rightarrow> (Inr n,
                         w\<lparr>clock_reads := clock_reads w + 3, random_draws := Suc (random_draws w)\<rparr>,
                         s\<lparr>db := d\<rparr>))
      else (case getNotesFromLocalStorage s of
              Inl e \<Rightarrow> (Inl (Error ''Failed to create note in localStorage''),
                         w\<lparr>clock_reads := clock_reads w + 3, random_draws := Suc (random_draws w)\<rparr>, s)
            | Inr ns \<Rightarrow> (Inr n,
                         w\<lparr>clock_reads := clock_reads w + 3, random_draws := Suc (random_draws w)\<rparr>,
                         s\<lparr>offline_notes := Json_text (ns @ [n])\<rparr>)))"
  by (simp add: createNote_def createNote_literal_eq spread_as_partial createNoteIndexedDB_def
      createNoteLocalStorage_def split: option.splits sum.splits)

lemma store_add_snoc:
  "sorted_wrt (<) (map id_key (pre @ [n])) \<Longrightarrow> store_add n pre = Some (pre @ [n])"
proof (induction pre)
  case Nil
  then show ?case by simp
next
  case (Cons m pre)
  then have "id_key m < id_key n" by simp
  then have "id_key n \<noteq> id_key m" "\<not> id_key n < id_key m" by auto
  moreover have "store_add n pre = Some (pre @ [n])" using Cons by simp
  ultimately show ?case by simp
qed

lemma import_loop_primary:
  assumes "isIndexedDBSupported s" and "sorted_wrt (<) (map id_key (records (db s) @ ns))"
  shows "\<exists>w' s'. import_loop w s (map as_partial ns) = (Inr (), w', s') \<and>
           isIndexedDBSupported s' \<and> records (db s') = records (db s) @ ns \<and>
           offline_notes s' = offline_notes s"
  using assms
proof (induction ns arbitrary: w s)
  case Nil
  then show ?case by simp
next
  case (Cons n ns)
  have "sorted_wrt (<) (map id_key (records (db s) @ [n]))"
    using Cons.prems(2) by (simp add: sorted_wrt_append)
  then have add: "store_add n (records (db s)) = Some (records (db s) @ [n])"
    by (rule store_add_snoc)
  let ?d = "\<lparr> records = records (db s) @ [n],
              folder_index = index_add (folder n, id_key n) (folder_index (db s)) \<rparr>"
  let ?w = "w\<lparr>clock_reads := clock_reads w + 3, random_draws := Suc (random_draws w)\<rparr>"
  have step: "createNote w s (as_partial n) = (Inr n, ?w, s\<lparr>db := ?d\<rparr>)"
    using Cons.prems(1) add by (simp add: createNote_as_partial idb_add_def)
  have "\<exists>w' s'. import_loop ?w (s\<lparr>db := ?d\<rparr>) (map as_partial ns) = (Inr (), w', s') \<and>
           isIndexedDBSupported s' \<and> records (db s') = records (db (s\<lparr>db := ?d\<rparr>)) @ ns \<and>
           offline_notes s' = offline_notes (s\<lparr>db := ?d\<rparr>)"
    by (rule Cons.IH) (use Cons.prems in simp_all)
  then show ?case using step by auto
qed

lemma import_loop_fallback:
  assumes "\<not> isIndexedDBSupported s" and "offline_notes s = Json_text pre"
  shows "\<exists>w' s'. import_loop w s (map as_partial ns) = (Inr (), w', s') \<and>
           \<not> isIndexedDBSupported s' \<and> offline_notes s' = Json_text (pre @ ns) \<and> db s' = db s"
  using assms
proof (induction ns arbitrary: w s pre)
  case Nil
  then show ?case by simp
next
  case (Cons n ns)
  let ?w = "w\<lparr>clock_reads := clock_reads w + 3, random_draws := Suc (random_draws w)\<rparr>"
  let ?s = "s\<lparr>offline_notes := Json_text (pre @ [n])\<rparr>"
  have step: "createNote w s (as_partial n) = (Inr n, ?w, ?s)"
    using Cons.prems by (simp add: createNote_as_partial getNotesFromLocalStorage_def)
  have "\<exists>w' s'. import_loop ?w ?s (map as_partial ns) = (Inr (), w', s') \<and>
           \<not> isIndexedDBSupported s' \<and> offline_notes s' = Json_text ((pre @ [n]) @ ns) \<and>
           db s' = db ?s"
    by (rule Cons.IH) (use Cons.prems in simp_all)
  then show ?case using step by auto
qed

subsection \<open>Every method preserves the engine's invariant\<close>

lemma createNote_wf:
  assumes "storage_wf s" and "createNote w s noteData = (r, w', s')"
  shows "storage_wf s'"
proof -
  obtain n w1 where l: "createNote_literal w noteData = (n, w1)" by (cases "createNote_literal w noteData")
  show ?thesis
  proof (cases "isIndexedDBSupported s")
    case True
    then show ?thesis
      using assms l idb_wf_add [of "db s" n]
      by (auto simp: createNote_def createNoteIndexedDB_def storage_wf_def split: option.splits)
  next
    case False
    then show ?thesis
      using assms l
      by (auto simp: createNote_def createNoteLocalStorage_def storage_wf_def split: sum.splits)
  qed
qed

lemma updateNote_wf:
  assumes "storage_wf s" and "updateNote w s i updates = (r, w', s')"
  shows "storage_wf s'"
  using assms idb_wf_put [of "db s"]
  by (auto simp: updateNote_def Let_def new_Date_toISOString_def Date_now_def
      updateNoteIndexedDB_def updateNoteLocalStorage_def storage_wf_def
      split: sum.splits option.splits if_splits)

lemma deleteNote_wf:
  assumes "storage_wf s" and "deleteNote s i = (r, s')"
  shows "storage_wf s'"
  using assms idb_wf_delete [of "db s" i]
  by (auto simp: deleteNote_def deleteNoteIndexedDB_def deleteNoteLocalStorage_def storage_wf_def
      split: sum.splits if_splits)

lemma clearAllData_wf:
  assumes "storage_wf s" and "clearAllData s = (r, s')"
  shows "storage_wf s'"
  using assms idb_wf_clear
  by (auto simp: clearAllData_def clearAllDataIndexedDB_def clearAllDataLocalStorage_def
      storage_wf_def split: if_splits)

lemma import_loop_wf:
  assumes "storage_wf s" and "import_loop w s nds = (r, w', s')"
  shows "storage_wf s'"
  using assms
proof (induction nds arbitrary: w s)
  case Nil
  then show ?case by simp
next
  case (Cons noteData rest)
  obtain r1 w1 s1 where c: "createNote w s noteData = (r1, w1, s1)"
    by (cases "createNote w s noteData")
  have wf1: "storage_wf s1" using Cons.prems(1) c by (rule createNote_wf)
  show ?case
  proof (cases r1)
    case (Inl e)
    then show ?thesis using Cons.prems(2) c wf1 by simp
  next
    case (Inr n)
    then have "import_loop w1 s1 rest = (r, w', s')" using Cons.prems(2) c by simp
    with wf1 show ?thesis by (rule Cons.IH)
  qed
qed

lemma importData_wf:
  assumes "storage_wf s" and "importData w s d = (r, w', s')"
  shows "storage_wf s'"
proof (cases "notes_val d")
  case (Array ns)
  obtain r1 s1 where c: "clearAllData s = (r1, s1)" by (cases "clearAllData s")
  have wf1: "storage_wf s1" using assms(1) c by (rule clearAllData_wf)
  obtain r2 w2 s2 where l: "import_loop w s1 ns = (r2, w2, s2)"
    by (cases "import_loop w s1 ns")
  have wf2: "storage_wf s2" using wf1 l by (rule import_loop_wf)
  have "s' = s1 \<or> s' = s2"
    using assms(2) Array c l
    by (auto simp: importData_def truthy_def Array_isArray_def split: sum.splits)
  then show ?thesis using wf1 wf2 by auto
next
qed (use assms in \<open>simp_all add: importData_def Array_isArray_def\<close>)

subsection \<open>What \<^verbatim>\<open>createNote\<close> settles with\<close>


lemma createNote_resolved:
  assumes "createNote w s noteData = (Inr n, w', s')"
  shows "n = fst (createNote_literal w noteData)"
  using assms
  by (auto simp: createNote_def createNote_literal_eq createNoteIndexedDB_def
      createNoteLocalStorage_def split: if_splits option.splits sum.splits)

lemma createNote_rejected:
  assumes "createNote w s noteData = (Inl e, w', s')"
  shows "s' = s \<and>
         (if isIndexedDBSupported s
          then idb_get (id_key (fst (createNote_literal w noteData))) (db s) \<noteq> None
          else getNotesFromLocalStorage s = Inl SyntaxError)"
proof (cases "isIndexedDBSupported s")
  case True
  let ?n = "fst (createNote_literal w noteData)"
  have "store_add ?n (records (db s)) = None" and "s' = s"
    using assms True
    by (auto simp: createNote_def createNote_literal_eq createNoteIndexedDB_def idb_add_def
        split: option.splits)
  then have "id_key ?n \<in> id_key ` set (records (db s))" and "s' = s"
    by (simp_all add: store_add_None)
  then show ?thesis using True by (auto simp: idb_get_def find_None_iff)
next
  case False
  then show ?thesis
    using assms
    by (auto simp: createNote_def createNote_literal_eq createNoteLocalStorage_def
        getNotesFromLocalStorage_def split: sum.splits item.splits)
qed

lemma generated_id_nonempty: "fst (generateId w) \<noteq> []"
  by (simp add: generateId_eq)

subsection \<open>The ids of a sequence of creations\<close>





subsection \<open>Evaluating the sample states\<close>

lemmas sample_defs =
  steady_clock_def ticking_clock_def fixed_random_def varying_random_def steady_world_def
  ticking_world_def no_fields_def note_x_def sample_note_a_def sample_note_b_def sample_idb_def
  empty_primary_def empty_fallback_def primary_store_def fallback_store_def corrupted_store_def

lemmas primitive_defs =
  Let_def Date_now_def new_Date_toISOString_def Math_random_toString36_def substr_def
  digit_char_def decimal.simps capital_code_def toLowerCase_char_def char_of_def bit_0
  toLowerCase_def or_text_def or_array_def
  truthy_def Array_isArray_def spread_def idb_get_def idb_add_def idb_put_def idb_delete_def
  idb_clear_def idb_getAll_def idb_index_getAll_def List.map_filter_def

lemmas method_defs =
  getNotesFromLocalStorage_def generateId_def createNote_literal_def createNoteIndexedDB_def
  createNoteLocalStorage_def createNote_def getAllNotesIndexedDB_def getAllNotesLocalStorage_def
  getAllNotes_def getNoteIndexedDB_def getNoteLocalStorage_def getNote_def
  updateNoteIndexedDB_def updateNoteLocalStorage_def updateNote_def search_hit_def
  searchNotes_def getNotesByFolderIndexedDB_def getNotesByFolder_def dbVersion_def
  exportData_def clearAllDataIndexedDB_def clearAllDataLocalStorage_def clearAllData_def
  importData_def as_partial_def as_data_def

lemma primary_store_wf: "storage_wf primary_store"
  by (simp add: storage_wf_def idb_wf_def sample_defs)

lemma fallback_store_wf: "storage_wf fallback_store"
  by (simp add: storage_wf_def idb_wf_def idb_clear_def sample_defs)

section \<open>The claims\<close>

text \<open>
  Claim C1 says that on the fallback backend a blob that fails to deserialize makes
  every read resolve with an empty result. The code does not do that:
  \<^verbatim>\<open>getNotesFromLocalStorage\<close> lets \<^verbatim>\<open>JSON.parse\<close> throw, and each caller's
  handler turns the exception into a rejection. The theorem records what the four read
  operations do on such a blob.
\<close>

theorem malformed_blob_reads_reject:
  assumes "\<not> isIndexedDBSupported s" and "offline_notes s = Malformed_text t"
  shows "getAllNotes s = Inl (Error ''Failed to get notes from localStorage'') \<and>
         getNote s i = Inl (Error ''Failed to get note from localStorage'') \<and>
         searchNotes s q = Inl (Error ''Failed to get notes from localStorage'') \<and>
         getNotesByFolder s f = Inl (Error ''Failed to get notes from localStorage'')"
  using assms
  by (simp add: getAllNotes_def getAllNotesLocalStorage_def getNotesFromLocalStorage_def
      getNote_def getNoteLocalStorage_def searchNotes_def getNotesByFolder_def)

theorem malformed_blob_reads_reject_witness:
  "\<not> isIndexedDBSupported corrupted_store \<and>
   offline_notes corrupted_store = Malformed_text ''invalid json'' \<and>
   getAllNotes corrupted_store = Inl (Error ''Failed to get notes from localStorage'') \<and>
   getNote corrupted_store ''note_1000_abc'' =
     Inl (Error ''Failed to get note from localStorage'') \<and>
   searchNotes corrupted_store ''milk'' = Inl (Error ''Failed to get notes from localStorage'') \<and>
   getNotesByFolder corrupted_store ''home'' =
     Inl (Error ''Failed to get notes from localStorage'')"
proof -
  have a: "\<not> isIndexedDBSupported corrupted_store"
    and b: "offline_notes corrupted_store = Malformed_text ''invalid json''"
    by (simp_all add: corrupted_store_def)
  from a b malformed_blob_reads_reject [OF a b, where i = "''note_1000_abc''" and q = "''milk''"
      and f = "''home''"]
  show ?thesis by (intro conjI) simp_all
qed

text \<open>
  Claim C2, as amended. Whatever the argument object, \<^verbatim>\<open>createNote\<close> either resolves
  with a note in which every property absent from the argument has its default
  (title \<^verbatim>\<open>Untitled Note\<close>, empty content, no tags, folder \<^verbatim>\<open>default\<close>), a generated
  non-empty id, and the second and third clock readings of the call as
  \<^verbatim>\<open>createdAt\<close> and \<^verbatim>\<open>updatedAt\<close> (equal when the clock did not advance between the
  two reads), or it rejects and leaves the storage as it was, which happens only on a
  key collision (primary backend) or a blob that does not parse (fallback backend).
\<close>

theorem createNote_defaults:
  "case createNote w s noteData of
     (Inr n, w', s') \<Rightarrow>
       (title_opt noteData = None \<longrightarrow> title n = ''Untitled Note'') \<and>
       (content_opt noteData = None \<longrightarrow> content n = []) \<and>
       (tags_opt noteData = None \<longrightarrow> tags n = []) \<and>
       (folder_opt noteData = None \<longrightarrow> folder n = ''default'') \<and>
       (id_opt noteData = None \<longrightarrow> id_key n = fst (generateId w) \<and> id_key n \<noteq> []) \<and>
       (createdAt_opt noteData = None \<longrightarrow> createdAt n = clock w (clock_reads w + 1)) \<and>
       (updatedAt_opt noteData = None \<longrightarrow> updatedAt n = clock w (clock_reads w + 2)) \<and>
       (createdAt_opt noteData = None \<and> updatedAt_opt noteData = None \<and>
        clock w (clock_reads w + 1) = clock w (clock_reads w + 2) \<longrightarrow>
          createdAt n = updatedAt n)
   | (Inl e, w', s') \<Rightarrow>
       s' = s \<and>
       (if isIndexedDBSupported s
        then idb_get (id_key (fst (createNote_literal w noteData))) (db s) \<noteq> None
        else getNotesFromLocalStorage s = Inl SyntaxError)"
proof -
  obtain r w' s' where c: "createNote w s noteData = (r, w', s')"
    by (cases "createNote w s noteData")
  show ?thesis
  proof (cases r)
    case (Inl e)
    then show ?thesis using c createNote_rejected [of w s noteData e w' s'] by simp
  next
    case (Inr n)
    then have "n = fst (createNote_literal w noteData)"
      using c createNote_resolved by simp
    then show ?thesis
      using c Inr generated_id_nonempty [of w]
      by (simp add: createNote_literal_eq spread_def or_text_def or_array_def)
  qed
qed

text \<open>
  The claim as stated fails: an empty title supplied by the caller is kept, because the
  argument is spread over the defaults; and the two timestamps come from two reads of
  the clock, which differ when the clock advances between them.
\<close>

theorem createNote_defaults_counterexample:
  "map_sum id title (fst (createNote steady_world empty_fallback (no_fields\<lparr>title_opt := Some []\<rparr>)))
     = Inr [] \<and>
   map_sum id createdAt (fst (createNote ticking_world empty_fallback no_fields)) = Inr 3001 \<and>
   map_sum id updatedAt (fst (createNote ticking_world empty_fallback no_fields)) = Inr 3002"
  by (simp add: sample_defs primitive_defs method_defs)

theorem createNote_defaults_witness:
  "title_opt no_fields = None \<and> content_opt no_fields = None \<and> tags_opt no_fields = None \<and>
   folder_opt no_fields = None \<and> id_opt no_fields = None \<and>
   createdAt_opt no_fields = None \<and> updatedAt_opt no_fields = None \<and>
   createNote steady_world empty_fallback no_fields =
     (Inr (note_x\<lparr>title := ''Untitled Note''\<rparr>),
      steady_world\<lparr>clock_reads := 3, random_draws := 1\<rparr>,
      empty_fallback\<lparr>offline_notes := Json_text [note_x\<lparr>title := ''Untitled Note''\<rparr>]\<rparr>)"
  using createNote_defaults [where w = steady_world and s = empty_fallback and noteData = no_fields]
  by (simp add: sample_defs primitive_defs method_defs)

text \<open>
  Claim C3: from any storage whose collection can be read (and, on the primary backend,
  satisfies the engine's invariant), exporting, clearing and importing the exported
  bundle resolves with the number of notes and leaves a storage whose collection is the
  same sequence of notes, hence the same ids and the same values of every property.
\<close>

theorem export_clear_import_roundtrip:
  assumes "getAllNotes s = Inr ns"
    and "isIndexedDBSupported s \<longrightarrow> storage_wf s"
  shows "\<exists>b w1 s1 w2 s2.
           exportData w s = (Inr b, w1) \<and> bundle_notes b = ns \<and>
           clearAllData s = (Inr True, s1) \<and> getAllNotes s1 = Inr [] \<and>
           importData w1 s1 (as_data b) = (Inr (length ns), w2, s2) \<and>
           getAllNotes s2 = Inr ns"
proof (cases "isIndexedDBSupported s")
  case True
  let ?s1 = "s\<lparr>db := idb_clear\<rparr>"
  let ?w1 = "w\<lparr>clock_reads := Suc (clock_reads w)\<rparr>"
  have ns: "records (db s) = ns"
    using assms(1) True by (simp add: getAllNotes_def getAllNotesIndexedDB_def idb_getAll_def)
  have "isIndexedDBSupported ?s1" "sorted_wrt (<) (map id_key (records (db ?s1) @ ns))"
    using True assms(2) ns by (simp_all add: idb_clear_def storage_wf_def idb_wf_def)
  from import_loop_primary [OF this, of ?w1] obtain w2 s2
    where l: "import_loop ?w1 ?s1 (map as_partial ns) = (Inr (), w2, s2)"
      and s2: "isIndexedDBSupported s2" "records (db s2) = ns"
    by (auto simp: idb_clear_def)
  have "exportData w s = (Inr \<lparr>version = dbVersion, exportDate = clock w (clock_reads w), bundle_notes = ns\<rparr>, ?w1)"
    using assms(1) by (simp add: exportData_def new_Date_toISOString_def Date_now_def)
  moreover have "clearAllData s = (Inr True, ?s1)"
    using True by (simp add: clearAllData_def clearAllDataIndexedDB_def)
  moreover have "getAllNotes ?s1 = Inr []"
    using True by (simp add: getAllNotes_def getAllNotesIndexedDB_def idb_getAll_def idb_clear_def)
  moreover have "importData ?w1 ?s1 (as_data \<lparr>version = dbVersion, exportDate = clock w (clock_reads w), bundle_notes = ns\<rparr>)
      = (Inr (length ns), w2, s2)"
    using True l
    by (simp add: importData_def as_data_def truthy_def Array_isArray_def clearAllData_def
        clearAllDataIndexedDB_def)
  moreover have "getAllNotes s2 = Inr ns"
    using s2 by (simp add: getAllNotes_def getAllNotesIndexedDB_def idb_getAll_def)
  ultimately show ?thesis by simp
next
  case False
  let ?s1 = "s\<lparr>offline_notes := Json_text []\<rparr>"
  let ?w1 = "w\<lparr>clock_reads := Suc (clock_reads w)\<rparr>"
  have "\<not> isIndexedDBSupported ?s1" "offline_notes ?s1 = Json_text []"
    using False by simp_all
  from import_loop_fallback [OF this, of ?w1 ns] obtain w2 s2
    where l: "import_loop ?w1 ?s1 (map as_partial ns) = (Inr (), w2, s2)"
      and s2: "\<not> isIndexedDBSupported s2" "offline_notes s2 = Json_text ns"
    by auto
  have "exportData w s = (Inr \<lparr>version = dbVersion, exportDate = clock w (clock_reads w), bundle_notes = ns\<rparr>, ?w1)"
    using assms(1) by (simp add: exportData_def new_Date_toISOString_def Date_now_def)
  moreover have "clearAllData s = (Inr True, ?s1)"
    using False by (simp add: clearAllData_def clearAllDataLocalStorage_def)
  moreover have "getAllNotes ?s1 = Inr []"
    using False by (simp add: getAllNotes_def getAllNotesLocalStorage_def getNotesFromLocalStorage_def)
  moreover have "importData ?w1 ?s1 (as_data \<lparr>version = dbVersion, exportDate = clock w (clock_reads w), bundle_notes = ns\<rparr>)
      = (Inr (length ns), w2, s2)"
    using False l
    by (simp add: importData_def as_data_def truthy_def Array_isArray_def clearAllData_def
        clearAllDataLocalStorage_def)
  moreover have "getAllNotes s2 = Inr ns"
    using s2 by (simp add: getAllNotes_def getAllNotesLocalStorage_def getNotesFromLocalStorage_def)
  ultimately show ?thesis by simp
qed

theorem export_clear_import_roundtrip_witness:
  "getAllNotes primary_store = Inr [sample_note_a, sample_note_b] \<and>
   storage_wf primary_store \<and>
   (\<exists>b w1 s1 w2 s2.
      exportData ticking_world primary_store = (Inr b, w1) \<and>
      bundle_notes b = [sample_note_a, sample_note_b] \<and>
      clearAllData primary_store = (Inr True, s1) \<and> getAllNotes s1 = Inr [] \<and>
      importData w1 s1 (as_data b) = (Inr (length [sample_note_a, sample_note_b]), w2, s2) \<and>
      getAllNotes s2 = Inr [sample_note_a, sample_note_b])"
proof -
  have h: "getAllNotes primary_store = Inr [sample_note_a, sample_note_b]"
    by (simp add: getAllNotes_def getAllNotesIndexedDB_def idb_getAll_def primary_store_def
        sample_idb_def)
  have i: "isIndexedDBSupported primary_store \<longrightarrow> storage_wf primary_store"
    using primary_store_wf by simp
  from h primary_store_wf export_clear_import_roundtrip [OF h i, where w = ticking_world]
  show ?thesis by (intro conjI)
qed

text \<open>
  Claim C4, as amended. For an existing id and an \<^verbatim>\<open>updates\<close> object that has no
  \<^verbatim>\<open>id\<close> property (or repeats the same id), \<^verbatim>\<open>updateNote\<close> resolves and a following
  \<^verbatim>\<open>getNote\<close> returns the note it resolved with. Its \<^verbatim>\<open>updatedAt\<close> is the clock
  reading of the update, so it is strictly greater than \<^verbatim>\<open>createdAt\<close> when that reading
  is later than \<^verbatim>\<open>createdAt\<close>; its \<^verbatim>\<open>createdAt\<close> is the old one when \<^verbatim>\<open>updates\<close> has
  no \<^verbatim>\<open>createdAt\<close>; and title, content, tags and folder are the old ones when
  \<^verbatim>\<open>updates\<close> does not have them.
\<close>

theorem updateNote_then_getNote:
  assumes "getNote s i = Inr (Some old)"
    and "id_opt updates = None \<or> id_opt updates = Some i"
  shows "\<exists>n w' s'.
           updateNote w s i updates = (Inr n, w', s') \<and>
           getNote s' i = Inr (Some n) \<and>
           id_key n = i \<and>
           updatedAt n = clock w (clock_reads w) \<and>
           (createdAt_opt updates = None \<longrightarrow> createdAt n = createdAt old) \<and>
           (title_opt updates = None \<longrightarrow> title n = title old) \<and>
           (content_opt updates = None \<longrightarrow> content n = content old) \<and>
           (tags_opt updates = None \<longrightarrow> tags n = tags old) \<and>
           (folder_opt updates = None \<longrightarrow> folder n = folder old) \<and>
           (createdAt_opt updates = None \<and> createdAt old < clock w (clock_reads w) \<longrightarrow>
              createdAt n < updatedAt n)"
proof -
  let ?n = "(spread old updates)\<lparr>updatedAt := clock w (clock_reads w)\<rparr>"
  let ?w = "w\<lparr>clock_reads := Suc (clock_reads w)\<rparr>"
  have old: "id_key old = i"
  proof (cases "isIndexedDBSupported s")
    case True
    then show ?thesis
      using assms(1) find_id_key [of i "records (db s)" old]
      by (simp add: getNote_def getNoteIndexedDB_def idb_get_def)
  next
    case False
    from getNote_fallback_cases [OF False assms(1)] obtain ns
      where "find (\<lambda>n. id_key n = i) ns = Some old" by metis
    then show ?thesis using find_id_key by blast
  qed
  have idn: "id_key ?n = i"
    using assms(2) old by (auto simp: id_key_spread)
  have frame:
    "updatedAt ?n = clock w (clock_reads w) \<and>
     (createdAt_opt updates = None \<longrightarrow> createdAt ?n = createdAt old) \<and>
     (title_opt updates = None \<longrightarrow> title ?n = title old) \<and>
     (content_opt updates = None \<longrightarrow> content ?n = content old) \<and>
     (tags_opt updates = None \<longrightarrow> tags ?n = tags old) \<and>
     (folder_opt updates = None \<longrightarrow> folder ?n = folder old) \<and>
     (createdAt_opt updates = None \<and> createdAt old < clock w (clock_reads w) \<longrightarrow>
        createdAt ?n < updatedAt ?n)"
    by (simp add: spread_def)
  have "\<exists>s'. updateNote w s i updates = (Inr ?n, ?w, s') \<and> getNote s' i = Inr (Some ?n)"
  proof (cases "isIndexedDBSupported s")
    case True
    have "getNote (s\<lparr>db := idb_put ?n (db s)\<rparr>) i = Inr (Some ?n)"
      using True idn by (simp add: getNote_def getNoteIndexedDB_def idb_get_put)
    moreover have "updateNote w s i updates = (Inr ?n, ?w, s\<lparr>db := idb_put ?n (db s)\<rparr>)"
      using True assms(1)
      by (simp add: Let_def updateNote_def new_Date_toISOString_def Date_now_def
          updateNoteIndexedDB_def)
    ultimately show ?thesis by blast
  next
    case False
    from getNote_fallback_cases [OF False assms(1)] obtain ns
      where ns: "getNotesFromLocalStorage s = Inr ns"
        and f: "find (\<lambda>n. id_key n = i) ns = Some old"
      by metis
    have "old \<in> set ns" using find_id_key [OF f] by simp
    then have "findIndex (\<lambda>m. id_key m = i) ns \<noteq> None"
      using old by (auto simp: findIndex_None_iff)
    then obtain k where k: "findIndex (\<lambda>m. id_key m = i) ns = Some k" by blast
    have "find (\<lambda>m. id_key m = i) (ns[k := ?n]) = Some ?n"
      using k idn by (rule find_update_at_findIndex)
    then have "getNote (s\<lparr>offline_notes := Json_text (ns[k := ?n])\<rparr>) i = Inr (Some ?n)"
      using False by (simp add: getNote_after_write)
    moreover have "updateNote w s i updates =
        (Inr ?n, ?w, s\<lparr>offline_notes := Json_text (ns[k := ?n])\<rparr>)"
      using False assms(1) ns k idn
      by (simp add: Let_def updateNote_def new_Date_toISOString_def Date_now_def
          updateNoteLocalStorage_def)
    ultimately show ?thesis by blast
  qed
  then obtain s' where "updateNote w s i updates = (Inr ?n, ?w, s')"
    and "getNote s' i = Inr (Some ?n)" by blast
  with idn frame
  have "updateNote w s i updates = (Inr ?n, ?w, s') \<and>
        getNote s' i = Inr (Some ?n) \<and>
        id_key ?n = i \<and>
        updatedAt ?n = clock w (clock_reads w) \<and>
        (createdAt_opt updates = None \<longrightarrow> createdAt ?n = createdAt old) \<and>
        (title_opt updates = None \<longrightarrow> title ?n = title old) \<and>
        (content_opt updates = None \<longrightarrow> content ?n = content old) \<and>
        (tags_opt updates = None \<longrightarrow> tags ?n = tags old) \<and>
        (folder_opt updates = None \<longrightarrow> folder ?n = folder old) \<and>
        (createdAt_opt updates = None \<and> createdAt old < clock w (clock_reads w) \<longrightarrow>
           createdAt ?n < updatedAt ?n)"
    by simp
  then show ?thesis by (intro exI)
qed


text \<open>
  The claim as stated fails in three ways. (1) A note created and updated within one
  millisecond has \<^verbatim>\<open>updatedAt\<close> equal to \<^verbatim>\<open>createdAt\<close>. (2) An \<^verbatim>\<open>updates\<close> object
  with a \<^verbatim>\<open>createdAt\<close> property replaces the stored \<^verbatim>\<open>createdAt\<close>. (3) An
  \<^verbatim>\<open>updates\<close> object with another \<^verbatim>\<open>id\<close> makes the primary backend store the merged
  record under that id, and \<^verbatim>\<open>getNote\<close> of the original id returns the old record.
\<close>

theorem updateNote_then_getNote_counterexample:
  "createNote steady_world empty_fallback (no_fields\<lparr>title_opt := Some ''X''\<rparr>) =
     (Inr note_x, steady_world\<lparr>clock_reads := 3, random_draws := 1\<rparr>,
      empty_fallback\<lparr>offline_notes := Json_text [note_x]\<rparr>) \<and>
   updateNote (steady_world\<lparr>clock_reads := 3, random_draws := 1\<rparr>)
       (empty_fallback\<lparr>offline_notes := Json_text [note_x]\<rparr>)
       ''note_1000_4fzyo82mv'' (no_fields\<lparr>title_opt := Some ''Y''\<rparr>) =
     (Inr (note_x\<lparr>title := ''Y''\<rparr>), steady_world\<lparr>clock_reads := 4, random_draws := 1\<rparr>,
      empty_fallback\<lparr>offline_notes := Json_text [note_x\<lparr>title := ''Y''\<rparr>]\<rparr>) \<and>
   getNote (empty_fallback\<lparr>offline_notes := Json_text [note_x\<lparr>title := ''Y''\<rparr>]\<rparr>)
       ''note_1000_4fzyo82mv'' = Inr (Some (note_x\<lparr>title := ''Y''\<rparr>)) \<and>
   updatedAt (note_x\<lparr>title := ''Y''\<rparr>) = createdAt (note_x\<lparr>title := ''Y''\<rparr>) \<and>
   getNote fallback_store ''note_1000_abc'' = Inr (Some sample_note_a) \<and>
   getNote
       (snd (snd (updateNote ticking_world fallback_store ''note_1000_abc''
                    (no_fields\<lparr>createdAt_opt := Some 5\<rparr>))))
       ''note_1000_abc'' = Inr (Some (sample_note_a\<lparr>createdAt := 5, updatedAt := 3000\<rparr>)) \<and>
   createdAt sample_note_a = 1000 \<and>
   getNote primary_store ''note_1000_abc'' = Inr (Some sample_note_a) \<and>
   fst (updateNote ticking_world primary_store ''note_1000_abc''
          (no_fields\<lparr>id_opt := Some ''note_7'', title_opt := Some ''Moved''\<rparr>)) =
     Inr (sample_note_a\<lparr>id_key := ''note_7'', title := ''Moved'', updatedAt := 3000\<rparr>) \<and>
   getNote
       (snd (snd (updateNote ticking_world primary_store ''note_1000_abc''
                    (no_fields\<lparr>id_opt := Some ''note_7'', title_opt := Some ''Moved''\<rparr>))))
       ''note_1000_abc'' = Inr (Some sample_note_a)"
  by (simp add: sample_defs primitive_defs method_defs)

theorem updateNote_then_getNote_witness:
  "getNote primary_store ''note_2000_xyz'' = Inr (Some sample_note_b) \<and>
   id_opt (no_fields\<lparr>title_opt := Some ''Plan''\<rparr>) = None \<and>
   (\<exists>n w' s'.
      updateNote ticking_world primary_store ''note_2000_xyz''
        (no_fields\<lparr>title_opt := Some ''Plan''\<rparr>) = (Inr n, w', s') \<and>
      getNote s' ''note_2000_xyz'' = Inr (Some n) \<and>
      n = sample_note_b\<lparr>title := ''Plan'', updatedAt := 3000\<rparr> \<and>
      createdAt n < updatedAt n)"
proof -
  have h: "getNote primary_store ''note_2000_xyz'' = Inr (Some sample_note_b)"
    by (simp add: sample_defs primitive_defs method_defs)
  have i: "id_opt (no_fields\<lparr>title_opt := Some ''Plan''\<rparr>) = None \<or>
           id_opt (no_fields\<lparr>title_opt := Some ''Plan''\<rparr>) = Some ''note_2000_xyz''"
    by (simp add: no_fields_def)
  from updateNote_then_getNote [OF h i, where w = ticking_world] obtain n w' s'
    where u: "updateNote ticking_world primary_store ''note_2000_xyz''
                (no_fields\<lparr>title_opt := Some ''Plan''\<rparr>) = (Inr n, w', s')"
      and g: "getNote s' ''note_2000_xyz'' = Inr (Some n)"
    by blast
  have "updateNote ticking_world primary_store ''note_2000_xyz''
          (no_fields\<lparr>title_opt := Some ''Plan''\<rparr>) =
        (Inr (sample_note_b\<lparr>title := ''Plan'', updatedAt := 3000\<rparr>),
         ticking_world\<lparr>clock_reads := 1\<rparr>,
         primary_store\<lparr>db := idb_put (sample_note_b\<lparr>title := ''Plan'', updatedAt := 3000\<rparr>)
                                 sample_idb\<rparr>)"
    by (simp add: sample_defs Let_def Date_now_def new_Date_toISOString_def spread_def idb_get_def
        method_defs)
  with u have n: "n = sample_note_b\<lparr>title := ''Plan'', updatedAt := 3000\<rparr>" by simp
  then have "createdAt n < updatedAt n" by (simp add: sample_note_b_def)
  with h i u g n show ?thesis by (simp add: no_fields_def)
qed

text \<open>
  Claim C5: when the store has no note with the given id (\<^verbatim>\<open>getNote\<close> resolves with
  \<^verbatim>\<open>undefined\<close>), \<^verbatim>\<open>updateNote\<close> rejects with \<^verbatim>\<open>Note not found\<close>, and
  neither the storage nor the environment has changed: nothing was written and the
  clock was not read.
\<close>

theorem updateNote_missing_id_rejects:
  assumes "getNote s i = Inr None"
  shows "updateNote w s i updates = (Inl (Error ''Note not found''), w, s)"
  using assms by (simp add: updateNote_def)

theorem updateNote_missing_id_rejects_witness:
  "getNote fallback_store ''note_9_none'' = Inr None \<and>
   updateNote steady_world fallback_store ''note_9_none'' (no_fields\<lparr>title_opt := Some ''New Title''\<rparr>) =
     (Inl (Error ''Note not found''), steady_world, fallback_store) \<and>
   getNote primary_store ''note_9_none'' = Inr None \<and>
   updateNote steady_world primary_store ''note_9_none'' (no_fields\<lparr>title_opt := Some ''New Title''\<rparr>) =
     (Inl (Error ''Note not found''), steady_world, primary_store)"
proof -
  have f: "getNote fallback_store ''note_9_none'' = Inr None"
    by (simp add: getNote_def getNoteLocalStorage_def getNotesFromLocalStorage_def
        fallback_store_def sample_note_a_def sample_note_b_def)
  have p: "getNote primary_store ''note_9_none'' = Inr None"
    by (simp add: getNote_def getNoteIndexedDB_def idb_get_def
        primary_store_def sample_idb_def sample_note_a_def sample_note_b_def)
  show ?thesis
    using f p updateNote_missing_id_rejects [OF f] updateNote_missing_id_rejects [OF p]
    by simp
qed

text \<open>
  Claim C6: when \<^verbatim>\<open>data.notes\<close> is absent (\<open>Undefined\<close>) or is any value other than
  an array, \<^verbatim>\<open>importData\<close> rejects with \<^verbatim>\<open>Invalid import data format\<close> and leaves
  the storage as it was: the check precedes the clear and the loop.
\<close>

theorem importData_invalid_format:
  assumes "\<not> Array_isArray (notes_val d)"
  shows "importData w s d = (Inl (Error ''Invalid import data format''), w, s)"
  using assms by (simp add: importData_def)

theorem importData_invalid_format_witness:
  "\<not> Array_isArray (notes_val \<lparr>notes_val = Undefined\<rparr>) \<and>
   importData steady_world primary_store \<lparr>notes_val = Undefined\<rparr> =
     (Inl (Error ''Invalid import data format''), steady_world, primary_store) \<and>
   importData steady_world fallback_store \<lparr>notes_val = String ''notes''\<rparr> =
     (Inl (Error ''Invalid import data format''), steady_world, fallback_store)"
proof -
  have a: "\<not> Array_isArray (notes_val \<lparr>notes_val = Undefined\<rparr>)"
    by (simp add: Array_isArray_def)
  have b: "\<not> Array_isArray (notes_val \<lparr>notes_val = String ''notes''\<rparr>)"
    by (simp add: Array_isArray_def)
  show ?thesis
    using a importData_invalid_format [OF a] importData_invalid_format [OF b] by simp
qed

text \<open>
  Claim C7 says that \<^verbatim>\<open>searchNotes(q)\<close> returns, in every store state, exactly the
  notes for which the lowercased query is a substring of the lowercased title, of the
  lowercased content, or of the lowercasing of some tag, and never rejects. The theorem
  describes every settlement of \<^verbatim>\<open>searchNotes\<close>: whenever the stored collection can
  be read it resolves with exactly those notes, in collection order, hence with the
  empty sequence when none matches; on the fallback backend with a text that does not
  parse it rejects, whatever the query. That rejection is the behaviour claim C1 is
  about, coming from the same unguarded \<^verbatim>\<open>JSON.parse\<close>.
\<close>

theorem searchNotes_exact:
  "searchNotes s q =
     (if isIndexedDBSupported s then Inr (filter (query_matches q) (records (db s)))
      else (case offline_notes s of
              No_item \<Rightarrow> Inr []
            | Empty_text \<Rightarrow> Inr []
            | Json_text ns \<Rightarrow> Inr (filter (query_matches q) ns)
            | Malformed_text t \<Rightarrow> Inl (Error ''Failed to get notes from localStorage'')))"
  by (simp add: searchNotes_def getAllNotes_def getAllNotesIndexedDB_def idb_getAll_def
      getAllNotesLocalStorage_def getNotesFromLocalStorage_def search_filter
      split: item.splits)

theorem searchNotes_exact_witness:
  "searchNotes corrupted_store ''zebra'' = Inl (Error ''Failed to get notes from localStorage'') \<and>
   searchNotes fallback_store ''milk'' =
     Inr (filter (query_matches ''milk'') [sample_note_a, sample_note_b]) \<and>
   searchNotes fallback_store ''milk'' = Inr [sample_note_a] \<and>
   searchNotes fallback_store ''PLAN'' = Inr [sample_note_b] \<and>
   searchNotes primary_store ''zebra'' = Inr [] \<and>
   searchNotes (fallback_store\<lparr>offline_notes :=
        Json_text [sample_note_a\<lparr>title := ''CAF'' @ [CHR 0xC9]\<rparr>]\<rparr>) [CHR 0xE9] =
     Inr [sample_note_a\<lparr>title := ''CAF'' @ [CHR 0xC9]\<rparr>]"
proof -
  have a: "searchNotes corrupted_store ''zebra'' =
             Inl (Error ''Failed to get notes from localStorage'')"
    using searchNotes_exact [where s = corrupted_store and q = "''zebra''"]
    by (simp add: corrupted_store_def)
  have b: "searchNotes fallback_store ''milk'' =
             Inr (filter (query_matches ''milk'') [sample_note_a, sample_note_b])"
    using searchNotes_exact [where s = fallback_store and q = "''milk''"]
    by (simp add: fallback_store_def)
  have c: "searchNotes fallback_store ''milk'' = Inr [sample_note_a]"
    "searchNotes fallback_store ''PLAN'' = Inr [sample_note_b]"
    "searchNotes primary_store ''zebra'' = Inr []"
    "searchNotes (fallback_store\<lparr>offline_notes :=
        Json_text [sample_note_a\<lparr>title := ''CAF'' @ [CHR 0xC9]\<rparr>]\<rparr>) [CHR 0xE9] =
     Inr [sample_note_a\<lparr>title := ''CAF'' @ [CHR 0xC9]\<rparr>]"
    by (simp_all add: sample_defs primitive_defs method_defs)
  from a b c show ?thesis by (intro conjI)
qed

text \<open>
  Claim C8: for every folder label, \<^verbatim>\<open>getNotesByFolder\<close> settles as
  \<^verbatim>\<open>getAllNotes\<close> filtered by that folder does. On the fallback backend that is how
  it is computed; on the primary backend the result is read through the index on
  \<^verbatim>\<open>folder\<close>, and the two agree whenever the engine's invariant holds (it holds of
  the empty store and every method preserves it). The equality of
  sequences gives the equality of sets, and the empty sequence for a folder without
  notes.
\<close>

theorem getNotesByFolder_is_filter:
  assumes "isIndexedDBSupported s \<longrightarrow> storage_wf s"
  shows "getNotesByFolder s f =
           (case getAllNotes s of
              Inl e \<Rightarrow> Inl e
            | Inr allNotes \<Rightarrow> Inr (filter (\<lambda>n. folder n = f) allNotes))"
proof (cases "isIndexedDBSupported s")
  case True
  then show ?thesis
    using assms idb_index_getAll_filter [of "db s" f]
    by (simp add: storage_wf_def getNotesByFolder_def getNotesByFolderIndexedDB_def
        getAllNotes_def getAllNotesIndexedDB_def idb_getAll_def)
next
  case False
  then show ?thesis by (simp add: getNotesByFolder_def)
qed


theorem getNotesByFolder_is_filter_witness:
  "storage_wf primary_store \<and>
   getNotesByFolder primary_store ''work'' = Inr [sample_note_b] \<and>
   getNotesByFolder primary_store ''archive'' = Inr [] \<and>
   getNotesByFolder fallback_store ''home'' = Inr [sample_note_a]"
proof -
  have i: "isIndexedDBSupported primary_store \<longrightarrow> storage_wf primary_store"
    using primary_store_wf by simp
  have j: "isIndexedDBSupported fallback_store \<longrightarrow> storage_wf fallback_store"
    using fallback_store_wf by simp
  have "getNotesByFolder primary_store ''work'' = Inr [sample_note_b]"
    using getNotesByFolder_is_filter [OF i, where f = "''work''"]
    by (simp add: sample_defs getAllNotes_def getAllNotesIndexedDB_def idb_getAll_def)
  moreover have "getNotesByFolder primary_store ''archive'' = Inr []"
    using getNotesByFolder_is_filter [OF i, where f = "''archive''"]
    by (simp add: sample_defs getAllNotes_def getAllNotesIndexedDB_def idb_getAll_def)
  moreover have "getNotesByFolder fallback_store ''home'' = Inr [sample_note_a]"
    using getNotesByFolder_is_filter [OF j, where f = "''home''"]
    by (simp add: sample_defs getAllNotes_def getAllNotesLocalStorage_def
        getNotesFromLocalStorage_def)
  ultimately show ?thesis using primary_store_wf by (intro conjI)
qed




text \<open>
  Claim C10: for an existing id and any \<^verbatim>\<open>updates\<close> object, also one with an
  \<^verbatim>\<open>updatedAt\<close> property, whenever \<^verbatim>\<open>updateNote\<close> resolves, the note it resolved with
  is the stored record under its id and its \<^verbatim>\<open>updatedAt\<close> is the clock reading taken by
  the call. It rejects only on the fallback backend and only when \<^verbatim>\<open>updates\<close> carries
  another id that the collection does not have; then nothing is stored.
\<close>

theorem updateNote_stamps_updatedAt:
  assumes "getNote s i = Inr (Some existingNote)"
  shows "case updateNote w s i updates of
           (Inr n, w', s') \<Rightarrow>
             updatedAt n = clock w (clock_reads w) \<and> getNote s' (id_key n) = Inr (Some n)
         | (Inl e, w', s') \<Rightarrow>
             s' = s \<and> \<not> isIndexedDBSupported s \<and> id_opt updates \<noteq> None \<and>
             id_opt updates \<noteq> Some i"
proof (cases "isIndexedDBSupported s")
  case True
  then show ?thesis
    using assms
    by (simp add: Let_def updateNote_def new_Date_toISOString_def Date_now_def updateNoteIndexedDB_def
        getNote_def getNoteIndexedDB_def idb_get_put)
next
  case False
  from getNote_fallback_cases [OF False assms] obtain ns
    where ns: "getNotesFromLocalStorage s = Inr ns"
      and f: "find (\<lambda>n. id_key n = i) ns = Some existingNote"
    by metis
  let ?u = "(spread existingNote updates)\<lparr>updatedAt := clock w (clock_reads w)\<rparr>"
  have e: "id_key existingNote = i" "existingNote \<in> set ns"
    using find_id_key [OF f] by simp_all
  show ?thesis
  proof (cases "findIndex (\<lambda>m. id_key m = id_key ?u) ns")
    case None
    then have "id_key ?u \<noteq> i" using e by (auto simp: findIndex_None_iff)
    then have "id_opt updates \<noteq> None \<and> id_opt updates \<noteq> Some i"
      using e by (auto simp: id_key_spread split: option.splits)
    then show ?thesis
      using False assms ns None
      by (simp add: Let_def updateNote_def new_Date_toISOString_def Date_now_def
          updateNoteLocalStorage_def)
  next
    case (Some k)
    have "find (\<lambda>m. id_key m = id_key ?u) (ns[k := ?u]) = Some ?u"
      using Some by (rule find_update_at_findIndex) simp
    then show ?thesis
      using False assms ns Some
      by (simp add: Let_def updateNote_def new_Date_toISOString_def Date_now_def
          updateNoteLocalStorage_def getNote_after_write)
  qed
qed

theorem updateNote_stamps_updatedAt_witness:
  "getNote fallback_store ''note_1000_abc'' = Inr (Some sample_note_a) \<and>
   updateNote ticking_world fallback_store ''note_1000_abc''
       (no_fields\<lparr>updatedAt_opt := Some 1\<rparr>) =
     (Inr (sample_note_a\<lparr>updatedAt := 3000\<rparr>), ticking_world\<lparr>clock_reads := 1\<rparr>,
      fallback_store\<lparr>offline_notes :=
        Json_text [sample_note_a\<lparr>updatedAt := 3000\<rparr>, sample_note_b]\<rparr>) \<and>
   clock ticking_world (clock_reads ticking_world) = 3000 \<and>
   getNote
       (fallback_store\<lparr>offline_notes :=
          Json_text [sample_note_a\<lparr>updatedAt := 3000\<rparr>, sample_note_b]\<rparr>)
       ''note_1000_abc'' = Inr (Some (sample_note_a\<lparr>updatedAt := 3000\<rparr>))"
proof -
  have h: "getNote fallback_store ''note_1000_abc'' = Inr (Some sample_note_a)"
    by (simp add: sample_defs primitive_defs method_defs)
  show ?thesis
    using h updateNote_stamps_updatedAt [OF h, where w = ticking_world
        and updates = "no_fields\<lparr>updatedAt_opt := Some 1\<rparr>"]
    by (simp add: sample_defs primitive_defs method_defs)
qed

end
